theory Spec2Isabelle
  imports Complex_Main
begin

section \<open>Python values and their text\<close>

text \<open>
  The attributes \<open>id\<close> and \<open>result\<close> of a task are only ever passed through
  Python's \<open>str()\<close> (or an f-string, which formats the same way). The values the
  remote service puts there are \<open>None\<close>, a string or an integer.
\<close>

datatype pyval = PyNone | PyStr string | PyInt int

definition digit_char :: "nat \<Rightarrow> char" where
  "digit_char d = ''0123456789'' ! d"

fun digits :: "nat \<Rightarrow> string" where
  "digits n = (if n < 10 then [digit_char n] else digits (n div 10) @ [digit_char (n mod 10)])"

declare digits.simps [simp del]

fun py_str :: "pyval \<Rightarrow> string" where
  "py_str PyNone = ''None''"
| "py_str (PyStr s) = s"
| "py_str (PyInt i) = (if i < 0 then CHR ''-'' # digits (nat (- i)) else digits (nat i))"

section \<open>Data model\<close>

text \<open>
  The task object of the remote service. \<open>getattr(task, 'id', 'N/A')\<close> and
  \<open>getattr(task, 'error_message', ...)\<close> read attributes that may be missing, so
  these two are options: \<open>None\<close> is a missing attribute. \<open>status\<close> is a string
  and \<open>error_message\<close>, where the task has one, is text.
\<close>

record task =
  t_id :: "pyval option"
  t_status :: string
  t_result :: pyval
  t_error_message :: "string option"

record CodegenRequest =
  prompt :: string

record CodegenResponse =
  status :: string
  result :: "string option"
  error :: "string option"
  task_id :: "string option"

record HTTPAuthorizationCredentials =
  scheme :: string
  credentials :: string

datatype HTTPException = HTTPException (status_code: nat) (detail: string)

section \<open>Security\<close>

text \<open>
  \<open>verify_api_key\<close>: the first argument is the configured secret \<open>APP_API_KEY\<close>,
  read from the process environment at start-up. A raised \<open>HTTPException\<close> is the
  left injection.
\<close>

definition verify_api_key :: "string \<Rightarrow> HTTPAuthorizationCredentials \<Rightarrow> HTTPException + string" where
  "verify_api_key APP_API_KEY creds =
     (if scheme creds \<noteq> ''Bearer'' then
        Inl (HTTPException 403 ''Invalid authentication scheme'')
      else if credentials creds \<noteq> APP_API_KEY then
        Inl (HTTPException 401 ''Invalid API Key'')
      else Inr (credentials creds))"

section \<open>The remote service and the clock\<close>

text \<open>
  The handler talks to three things outside itself: the agent (\<open>agent.run\<close>,
  \<open>task.refresh\<close>), the clock (\<open>time.time()\<close>) and the scheduler
  (\<open>asyncio.sleep\<close>). What they do in one request is a script:

  \<^item> \<open>agent_run\<close> is what \<open>agent.run(prompt)\<close> does: it raises (left, the text
    of the exception) or returns a task;
  \<^item> \<open>arrival\<close> is the time at which the handler starts, \<open>submit_latency\<close> the
    time \<open>agent.run\<close> takes;
  \<^item> each element of \<open>rounds\<close> describes one pass through the loop body: how much
    longer than asked the sleep lasts, how long \<open>task.refresh\<close> takes, and what it
    does: it raises, or it leaves the task object in a new state.

  Clock readings are exact numbers. Time that passes between two statements is
  counted with the sleep or the refresh next to them. A script that ends while the
  loop still runs says nothing about what happens next: the handler's outcome is
  then \<open>None\<close>.
\<close>

record round =
  sleep_extra :: real
  refresh_latency :: real
  refresh_result :: "string + task"

record remote =
  agent_run :: "string \<Rightarrow> string + task"
  arrival :: real
  submit_latency :: real
  rounds :: "round list"

text \<open>
  Every call that leaves the handler is recorded with the time at which it is made.
  The value \<open>time.time()\<close> returns is the time of the call.
\<close>

datatype event = Submit string | Time | Sleep int | Refresh

type_synonym trace = "(real \<times> event) list"

section \<open>The endpoint\<close>

abbreviation timeout_seconds :: int where
  "timeout_seconds \<equiv> 120"

abbreviation polling_interval_seconds :: int where
  "polling_interval_seconds \<equiv> 3"

text \<open>How the \<open>while\<close> loop is left.\<close>

datatype loop_exit =
    TimedOut task
  | Raised string
  | Exited task

text \<open>
  The loop \<open>while task.status == "pending"\<close>. The test at the head of the
  function is the loop condition; the \<open>if task.status == "pending"\<close> around the
  loop and the \<open>break\<close> at the end of its body test the same condition with no call
  in between, so they are this test too. \<open>start_time\<close> is the reading taken after
  \<open>agent.run\<close>, \<open>now\<close> the current time.
\<close>

fun poll :: "real \<Rightarrow> real \<Rightarrow> task \<Rightarrow> round list \<Rightarrow> loop_exit option \<times> trace" where
  "poll start_time now task [] =
     (if t_status task \<noteq> ''pending'' then (Some (Exited task), [])
      else if now - start_time > real_of_int timeout_seconds then
        (Some (TimedOut task), [(now, Time)])
      else (None, [(now, Time), (now, Sleep polling_interval_seconds)]))"
| "poll start_time now task (r # rs) =
     (if t_status task \<noteq> ''pending'' then (Some (Exited task), [])
      else if now - start_time > real_of_int timeout_seconds then
        (Some (TimedOut task), [(now, Time)])
      else
        let woke = now + real_of_int polling_interval_seconds + sleep_extra r;
            calls = [(now, Time), (now, Sleep polling_interval_seconds), (woke, Refresh)]
        in case refresh_result r of
             Inl e \<Rightarrow> (Some (Raised e), calls)
           | Inr task' \<Rightarrow>
               (case poll start_time (woke + refresh_latency r) task' rs of
                  (ex, tr) \<Rightarrow> (ex, calls @ tr)))"

text \<open>\<open>str(getattr(task, 'id', 'N/A'))\<close>\<close>

definition id_text :: "task \<Rightarrow> string" where
  "id_text task = py_str (case t_id task of None \<Rightarrow> PyStr ''N/A'' | Some v \<Rightarrow> v)"

text \<open>
  What a request ends with: the handler returns a response, raises an
  \<open>HTTPException\<close>, or falls off the end of the function and returns \<open>None\<close>.
\<close>

datatype outcome =
    Returned CodegenResponse
  | Raises HTTPException
  | ReturnedNone

text \<open>The \<open>except Exception as e\<close> clause.\<close>

definition internal_error :: "string \<Rightarrow> outcome" where
  "internal_error e = Raises (HTTPException 500 (''An internal error occurred: '' @ e))"

text \<open>
  The statements after the loop, together with the \<open>return\<close> inside it and the
  handler for a failure of \<open>task.refresh\<close>.
\<close>

fun respond :: "loop_exit \<Rightarrow> outcome" where
  "respond (TimedOut task) =
     Returned \<lparr>status = ''timeout'', result = None,
       error = Some (''Task timed out after '' @ py_str (PyInt timeout_seconds) @ '' seconds.''),
       task_id = Some (id_text task)\<rparr>"
| "respond (Raised e) = internal_error e"
| "respond (Exited task) =
     (if t_status task \<notin> set [''pending'', ''completed'', ''failed''] then
        Returned \<lparr>status = t_status task,
          result = Some (''Task ID: '' @ id_text task @ '' is now active.''),
          error = None, task_id = Some (id_text task)\<rparr>
      else if t_status task = ''completed'' then
        Returned \<lparr>status = t_status task, result = Some (py_str (t_result task)),
          error = None, task_id = Some (id_text task)\<rparr>
      else if t_status task = ''failed'' then
        Returned \<lparr>status = t_status task, result = None,
          error = Some (case t_error_message task of
                          None \<Rightarrow> ''Codegen task failed.'' | Some m \<Rightarrow> m),
          task_id = Some (id_text task)\<rparr>
      else ReturnedNone)"

text \<open>
  \<open>run_codegen_agent\<close>. The calls to \<open>print\<close> write to the console only and are
  left out.
\<close>

definition run_codegen_agent :: "remote \<Rightarrow> CodegenRequest \<Rightarrow> outcome option \<times> trace" where
  "run_codegen_agent env request =
     (case agent_run env (prompt request) of
        Inl e \<Rightarrow> (Some (internal_error e), [(arrival env, Submit (prompt request))])
      | Inr task \<Rightarrow>
          let start_time = arrival env + submit_latency env in
          (case poll start_time start_time task (rounds env) of
             (ex, tr) \<Rightarrow>
               (map_option respond ex,
                [(arrival env, Submit (prompt request)), (start_time, Time)] @ tr)))"

text \<open>
  The route \<open>POST /run-agent\<close> is declared with
  \<open>dependencies=[Depends(verify_api_key)]\<close>, and \<open>verify_api_key\<close> takes its
  argument from \<open>Depends(security)\<close>, where \<open>security = HTTPBearer()\<close> is an
  object of the web framework. For a request the framework calls \<open>security\<close>
  first, then \<open>verify_api_key\<close> on the credentials \<open>security\<close> returned,
  then the handler; an exception raised on the way ends the request.

  The argument \<open>security\<close> is what \<open>HTTPBearer()\<close> did with the request: it
  raised (left), or it returned the scheme and the credential it read from the
  \<open>Authorization\<close> header (right). Which headers it refuses by itself is the
  framework's matter; a request it refuses never reaches \<open>verify_api_key\<close>.
\<close>

definition run_agent_route ::
  "string \<Rightarrow> HTTPException + HTTPAuthorizationCredentials \<Rightarrow> remote \<Rightarrow> CodegenRequest
     \<Rightarrow> outcome option \<times> trace" where
  "run_agent_route APP_API_KEY security env request =
     (case security of
        Inl e \<Rightarrow> (Some (Raises e), [])
      | Inr creds \<Rightarrow>
          (case verify_api_key APP_API_KEY creds of
             Inl e \<Rightarrow> (Some (Raises e), [])
           | Inr key \<Rightarrow> run_codegen_agent env request))"

section \<open>Reading a script and a trace\<close>

text \<open>The time one pass through the loop body takes.\<close>

definition round_time :: "round \<Rightarrow> real" where
  "round_time r = real_of_int polling_interval_seconds + sleep_extra r + refresh_latency r"

text \<open>The refresh of this round returns and leaves the task pending.\<close>

definition keeps_pending :: "round \<Rightarrow> bool" where
  "keeps_pending r = (case refresh_result r of Inl e \<Rightarrow> False | Inr t \<Rightarrow> t_status t = ''pending'')"

text \<open>
  The clock reading at the head of the loop after \<open>j\<close> passes, less the start
  time.
\<close>

definition elapsed :: "round list \<Rightarrow> nat \<Rightarrow> real" where
  "elapsed rs j = sum_list (map round_time (take j rs))"

text \<open>None of the first \<open>n + 1\<close> checks at the head of the loop sees the timeout.\<close>

definition in_time :: "round list \<Rightarrow> nat \<Rightarrow> bool" where
  "in_time rs n = (\<forall>j\<le>n. elapsed rs j \<le> real_of_int timeout_seconds)"

definition refresh_calls :: "trace \<Rightarrow> real list" where
  "refresh_calls tr = map fst (filter (\<lambda>e. snd e = Refresh) tr)"

text \<open>
  The state of the task object after \<open>n\<close> refreshes: what \<open>agent.run\<close> did for
  \<open>n = 0\<close>, what the \<open>n\<close>-th refresh did otherwise.
\<close>

definition task_after :: "remote \<Rightarrow> string \<Rightarrow> nat \<Rightarrow> (string + task) option" where
  "task_after env p n =
     (case n of 0 \<Rightarrow> Some (agent_run env p)
      | Suc m \<Rightarrow> (if m < length (rounds env) then Some (refresh_result (rounds env ! m)) else None))"

text \<open>
  How long the task object stays pending after the start time, as the script has
  it: the time until the first refresh that does not leave it pending has returned.
  \<open>None\<close>: it is pending for as long as the script goes.
\<close>

fun pending_span :: "round list \<Rightarrow> real option" where
  "pending_span [] = None"
| "pending_span (r # rs) =
     (if keeps_pending r then map_option (\<lambda>d. round_time r + d) (pending_span rs)
      else Some (round_time r))"

text \<open>
  Two consecutive calls \<open>a\<close>, \<open>b\<close> of a trace are in order: a refresh comes
  right after a sleep of the polling interval, and a sleep right after a clock reading
  that is at most the timeout later than \<open>start_time\<close>.
\<close>

definition guarded :: "real \<Rightarrow> real \<times> event \<Rightarrow> real \<times> event \<Rightarrow> bool" where
  "guarded start_time a b \<longleftrightarrow>
     (snd b = Refresh \<longrightarrow> snd a = Sleep polling_interval_seconds) \<and>
     ((\<exists>d. snd b = Sleep d) \<longrightarrow>
        snd a = Time \<and> fst a - start_time \<le> real_of_int timeout_seconds)"

subsection \<open>Example scripts\<close>

definition task_in :: "string \<Rightarrow> task" where
  "task_in st = \<lparr>t_id = Some (PyInt 42), t_status = st, t_result = PyNone, t_error_message = None\<rparr>"

text \<open>A round whose sleep lasts three seconds and whose refresh takes half a second.\<close>

definition on_time :: "string + task \<Rightarrow> round" where
  "on_time res = \<lparr>sleep_extra = 0, refresh_latency = 1 / 2, refresh_result = res\<rparr>"

definition script :: "string + task \<Rightarrow> round list \<Rightarrow> remote" where
  "script sub rs = \<lparr>agent_run = (\<lambda>p. sub), arrival = 1000, submit_latency = 2, rounds = rs\<rparr>"

definition fix_bug :: CodegenRequest where
  "fix_bug = \<lparr>prompt = ''fix the bug''\<rparr>"

text \<open>
  The task is pending after \<open>agent.run\<close> and after each of 34 refreshes, one
  every three and a half seconds; the 35th refresh finds it completed.
\<close>

definition late_completion :: remote where
  "late_completion =
     script (Inr (task_in ''pending''))
       (replicate 34 (on_time (Inr (task_in ''pending'')))
        @ [on_time (Inr ((task_in ''completed'')\<lparr>t_result := PyStr ''patched''\<rparr>))])"

section \<open>Evaluation\<close>

lemma digits_small [simp]: "digits 0 = ''0''" "digits 1 = ''1''" "digits (Suc 0) = ''1''"
  by (simp_all add: digits.simps digit_char_def)

lemma digits_numeral [simp]:
  "digits (numeral k) =
     (if (numeral k :: nat) < 10 then [digit_char (numeral k)]
      else digits (numeral k div 10) @ [digit_char (numeral k mod 10)])"
  by (rule digits.simps)

lemma digit_char_numeral [simp]:
  "digit_char 0 = CHR ''0''" "digit_char 1 = CHR ''1''"
  "digit_char (numeral k) = ''0123456789'' ! numeral k"
  by (simp_all add: digit_char_def)

lemmas example_defs = task_in_def on_time_def script_def fix_bug_def

lemma elapsed_0: "elapsed rs 0 = 0"
  by (simp add: elapsed_def)

lemma elapsed_Suc: "elapsed (r # rs) (Suc j) = round_time r + elapsed rs j"
  by (simp add: elapsed_def)

lemma elapsed_append: "j \<le> length pre \<Longrightarrow> elapsed (pre @ post) j = elapsed pre j"
  by (simp add: elapsed_def)

lemma in_time_0: "in_time rs 0 \<longleftrightarrow> elapsed rs 0 \<le> 120"
  by (auto simp: in_time_def)

lemma in_time_Suc: "in_time rs (Suc n) \<longleftrightarrow> in_time rs n \<and> elapsed rs (Suc n) \<le> 120"
  by (auto simp: in_time_def le_Suc_eq)

lemma in_time_pre:
  "in_time (pre @ r # post) (length pre) \<Longrightarrow> \<forall>j\<le>length pre. s - s + elapsed pre j \<le> 120"
  by (auto simp: in_time_def elapsed_append)

lemma refresh_calls_simps:
  "refresh_calls [] = []"
  "refresh_calls ((a, Refresh) # tr) = a # refresh_calls tr"
  "refresh_calls ((a, Time) # tr) = refresh_calls tr"
  "refresh_calls ((a, Sleep d) # tr) = refresh_calls tr"
  "refresh_calls ((a, Submit p) # tr) = refresh_calls tr"
  by (simp_all add: refresh_calls_def)

section \<open>One pass through the loop\<close>

lemma poll_not_pending:
  "t_status t \<noteq> ''pending'' \<Longrightarrow> poll s now t rs = (Some (Exited t), [])"
  by (cases rs) simp_all

lemma poll_timed_out:
  "t_status t = ''pending'' \<Longrightarrow> now - s > 120 \<Longrightarrow>
   poll s now t rs = (Some (TimedOut t), [(now, Time)])"
  by (cases rs) simp_all

lemma poll_step:
  "t_status t = ''pending'' \<Longrightarrow> now - s \<le> 120 \<Longrightarrow> refresh_result r = Inr t' \<Longrightarrow>
   poll s now t (r # rs) =
     (fst (poll s (now + 3 + sleep_extra r + refresh_latency r) t' rs),
      [(now, Time), (now, Sleep 3), (now + 3 + sleep_extra r, Refresh)]
        @ snd (poll s (now + 3 + sleep_extra r + refresh_latency r) t' rs))"
  by (simp add: Let_def split: prod.splits)

lemma poll_refresh_raises:
  "t_status t = ''pending'' \<Longrightarrow> now - s \<le> 120 \<Longrightarrow> refresh_result r = Inl e \<Longrightarrow>
   poll s now t (r # rs) =
     (Some (Raised e), [(now, Time), (now, Sleep 3), (now + 3 + sleep_extra r, Refresh)])"
  by (simp add: Let_def)

lemma poll_cases:
  obtains (exited) "t_status t \<noteq> ''pending''"
  | (timeout) "t_status t = ''pending''" "now - s > 120"
  | (ends) "t_status t = ''pending''" "now - s \<le> 120" "rs = []"
  | (raises) r rs' e where "t_status t = ''pending''" "now - s \<le> 120" "rs = r # rs'"
      "refresh_result r = Inl e"
  | (again) r rs' t' where "t_status t = ''pending''" "now - s \<le> (120::real)" "rs = r # rs'"
      "refresh_result r = Inr t'"
proof (cases "t_status t \<noteq> ''pending''")
  case True
  then show ?thesis by (rule exited)
next
  case pending: False
  show ?thesis
  proof (cases "now - s > 120")
    case True
    with pending show ?thesis by (simp add: timeout)
  next
    case in_time: False
    show ?thesis
    proof (cases rs)
      case Nil
      with pending in_time show ?thesis by (simp add: ends)
    next
      case (Cons r rs')
      show ?thesis
      proof (cases "refresh_result r")
        case (Inl e)
        with pending in_time Cons show ?thesis by (simp add: raises)
      next
        case (Inr t')
        with pending in_time Cons show ?thesis by (simp add: again)
      qed
    qed
  qed
qed

section \<open>The loop until the status changes\<close>

lemma poll_settles:
  assumes "t_status t0 = ''pending''"
    and "\<forall>q\<in>set pre. keeps_pending q"
    and "\<forall>j\<le>length pre. now - s + elapsed pre j \<le> 120"
    and "refresh_result r = Inr t"
    and "t_status t \<noteq> ''pending''"
  shows "fst (poll s now t0 (pre @ r # post)) = Some (Exited t) \<and>
         length (refresh_calls (snd (poll s now t0 (pre @ r # post)))) = Suc (length pre) \<and>
         snd (last (snd (poll s now t0 (pre @ r # post)))) = Refresh"
  using assms
proof (induction pre arbitrary: now t0)
  case Nil
  then show ?case
    by (simp add: elapsed_0 poll_step poll_not_pending refresh_calls_simps del: poll.simps)
next
  case (Cons q pre)
  from Cons.prems(2) obtain t1 where q: "refresh_result q = Inr t1" "t_status t1 = ''pending''"
    by (auto simp: keeps_pending_def split: sum.splits)
  from Cons.prems(3) have now: "now - s \<le> 120"
    by (auto simp: elapsed_0 dest: spec [of _ 0])
  have later: "\<forall>j\<le>length pre. now + 3 + sleep_extra q + refresh_latency q - s + elapsed pre j \<le> 120"
  proof (intro allI impI)
    fix j assume "j \<le> length pre"
    with Cons.prems(3) have "now - s + elapsed (q # pre) (Suc j) \<le> 120" by simp
    then show "now + 3 + sleep_extra q + refresh_latency q - s + elapsed pre j \<le> 120"
      by (simp add: elapsed_Suc round_time_def)
  qed
  from Cons.prems(2) have "\<forall>q\<in>set pre. keeps_pending q" by simp
  from Cons.IH [OF q(2) this later Cons.prems(4) Cons.prems(5)]
  show ?case using Cons.prems(1) now q
    by (auto simp: poll_step refresh_calls_simps simp del: poll.simps)
qed

lemma poll_raises:
  assumes "t_status t0 = ''pending''"
    and "\<forall>q\<in>set pre. keeps_pending q"
    and "\<forall>j\<le>length pre. now - s + elapsed pre j \<le> 120"
    and "refresh_result r = Inl e"
  shows "fst (poll s now t0 (pre @ r # post)) = Some (Raised e) \<and>
         length (refresh_calls (snd (poll s now t0 (pre @ r # post)))) = Suc (length pre) \<and>
         snd (last (snd (poll s now t0 (pre @ r # post)))) = Refresh"
  using assms
proof (induction pre arbitrary: now t0)
  case Nil
  then show ?case
    by (simp add: elapsed_0 poll_refresh_raises refresh_calls_simps del: poll.simps)
next
  case (Cons q pre)
  from Cons.prems(2) obtain t1 where q: "refresh_result q = Inr t1" "t_status t1 = ''pending''"
    by (auto simp: keeps_pending_def split: sum.splits)
  from Cons.prems(3) have now: "now - s \<le> 120"
    by (auto simp: elapsed_0 dest: spec [of _ 0])
  have later: "\<forall>j\<le>length pre. now + 3 + sleep_extra q + refresh_latency q - s + elapsed pre j \<le> 120"
  proof (intro allI impI)
    fix j assume "j \<le> length pre"
    with Cons.prems(3) have "now - s + elapsed (q # pre) (Suc j) \<le> 120" by simp
    then show "now + 3 + sleep_extra q + refresh_latency q - s + elapsed pre j \<le> 120"
      by (simp add: elapsed_Suc round_time_def)
  qed
  from Cons.prems(2) have "\<forall>q\<in>set pre. keeps_pending q" by simp
  from Cons.IH [OF q(2) this later Cons.prems(4)]
  show ?case using Cons.prems(1) now q
    by (auto simp: poll_step refresh_calls_simps simp del: poll.simps)
qed

lemma poll_times_out:
  "t_status t0 = ''pending'' \<Longrightarrow> k \<le> length rs \<Longrightarrow> \<forall>q\<in>set (take k rs). keeps_pending q \<Longrightarrow>
   now - s + elapsed rs k > 120 \<Longrightarrow> \<exists>t. fst (poll s now t0 rs) = Some (TimedOut t)"
proof (induction rs arbitrary: now t0 k)
  case Nil
  then show ?case by (simp add: elapsed_def)
next
  case (Cons r rs)
  show ?case
  proof (cases "now - s > 120")
    case True
    with Cons.prems(1) show ?thesis by (simp add: poll_timed_out del: poll.simps)
  next
    case False
    with Cons.prems(4) obtain k' where k: "k = Suc k'"
      by (cases k) (simp_all add: elapsed_0)
    with Cons.prems(3) obtain t1 where r: "refresh_result r = Inr t1" "t_status t1 = ''pending''"
      by (auto simp: keeps_pending_def split: sum.splits)
    from k Cons.prems have "k' \<le> length rs" "\<forall>q\<in>set (take k' rs). keeps_pending q"
      "now + 3 + sleep_extra r + refresh_latency r - s + elapsed rs k' > 120"
      by (simp_all add: elapsed_Suc round_time_def)
    from Cons.IH [OF r(2) this] show ?thesis
      using False Cons.prems(1) r(1) by (simp add: poll_step del: poll.simps)
  qed
qed

section \<open>The task the loop ends with\<close>

lemma poll_last_task:
  "fst (poll s now t0 rs) = Some ex \<Longrightarrow> ex = TimedOut t \<or> ex = Exited t \<Longrightarrow>
   (case length (refresh_calls (snd (poll s now t0 rs))) of
      0 \<Rightarrow> t = t0
    | Suc m \<Rightarrow> m < length rs \<and> refresh_result (rs ! m) = Inr t)"
proof (induction rs arbitrary: now t0)
  case Nil
  show ?case
  proof (cases rule: poll_cases [where t = t0 and now = now and s = s and rs = "[] :: round list"])
    case exited
    with Nil show ?thesis by (auto simp: poll_not_pending refresh_calls_simps)
  next
    case timeout
    with Nil show ?thesis by (auto simp: poll_timed_out refresh_calls_simps)
  next
    case ends
    with Nil show ?thesis by simp
  qed simp_all
next
  case (Cons r rs)
  show ?case
  proof (cases rule: poll_cases [where t = t0 and now = now and s = s and rs = "r # rs"])
    case exited
    with Cons.prems show ?thesis
      by (auto simp: poll_not_pending refresh_calls_simps simp del: poll.simps)
  next
    case timeout
    with Cons.prems show ?thesis
      by (auto simp: poll_timed_out refresh_calls_simps simp del: poll.simps)
  next
    case ends
    then show ?thesis by simp
  next
    case (raises r' rs' e)
    with Cons.prems show ?thesis
      by (auto simp: poll_refresh_raises simp del: poll.simps)
  next
    case (again r' rs' t')
    then have eq: "r' = r" "rs' = rs" by simp_all
    let ?now = "now + 3 + sleep_extra r + refresh_latency r"
    from again eq have step: "poll s now t0 (r # rs) =
       (fst (poll s ?now t' rs),
        [(now, Time), (now, Sleep 3), (now + 3 + sleep_extra r, Refresh)] @ snd (poll s ?now t' rs))"
      by (simp add: poll_step del: poll.simps)
    with Cons.prems have "fst (poll s ?now t' rs) = Some ex" by simp
    from Cons.IH [OF this Cons.prems(2)] again eq
    show ?thesis
      unfolding step
      by (auto simp: refresh_calls_simps split: nat.splits)
  qed
qed

lemma poll_exited_status:
  "poll s now t0 rs = (Some (Exited t), tr) \<Longrightarrow> t_status t \<noteq> ''pending''"
proof (induction rs arbitrary: now t0 tr)
  case Nil
  then show ?case by (auto split: if_splits)
next
  case (Cons r rs)
  then show ?case
    by (auto simp: Let_def split: if_splits sum.splits prod.splits)
qed

lemma poll_exited_not_pending:
  "fst (poll s now t0 rs) = Some (Exited t) \<Longrightarrow> t_status t \<noteq> ''pending''"
  using poll_exited_status [of s now t0 rs t "snd (poll s now t0 rs)"]
  by (cases "poll s now t0 rs") simp

section \<open>The calls the loop makes\<close>

lemma poll_trace_head:
  "snd (poll s now t rs) = [] \<or> hd (snd (poll s now t rs)) = (now, Time)"
  by (cases rs) (auto simp: Let_def split: sum.splits prod.splits)

lemma poll_trace_guarded: "successively (guarded s) (snd (poll s now t rs))"
proof (induction rs arbitrary: now t)
  case Nil
  then show ?case by (simp add: guarded_def)
next
  case (Cons r rs)
  show ?case
  proof (cases rule: poll_cases [where t = t and now = now and s = s and rs = "r # rs"])
    case (again r' rs' t')
    let ?now = "now + 3 + sleep_extra r + refresh_latency r"
    from again have step: "snd (poll s now t (r # rs)) =
        [(now, Time), (now, Sleep 3), (now + 3 + sleep_extra r, Refresh)] @ snd (poll s ?now t' rs)"
      by (simp add: poll_step del: poll.simps)
    from poll_trace_head [of s ?now t' rs] Cons.IH [of ?now t'] again(2)
    show ?thesis unfolding step
      by (auto simp: successively_Cons guarded_def)
  qed (auto simp: poll_not_pending poll_timed_out poll_refresh_raises guarded_def simp del: poll.simps)
qed

lemma poll_refresh_after:
  "\<forall>r\<in>set rs. 0 \<le> sleep_extra r \<and> 0 \<le> refresh_latency r \<Longrightarrow>
   \<forall>c\<in>set (refresh_calls (snd (poll s now t rs))). now + 3 \<le> c"
proof (induction rs arbitrary: now t)
  case Nil
  then show ?case by (simp add: refresh_calls_simps)
next
  case (Cons r rs)
  show ?case
  proof (cases rule: poll_cases [where t = t and now = now and s = s and rs = "r # rs"])
    case (again r' rs' t')
    let ?now = "now + 3 + sleep_extra r + refresh_latency r"
    from again have step: "snd (poll s now t (r # rs)) =
        [(now, Time), (now, Sleep 3), (now + 3 + sleep_extra r, Refresh)] @ snd (poll s ?now t' rs)"
      by (simp add: poll_step del: poll.simps)
    from Cons.prems have "\<forall>r\<in>set rs. 0 \<le> sleep_extra r \<and> 0 \<le> refresh_latency r" by simp
    from Cons.IH [OF this, of ?now t'] Cons.prems
    show ?thesis unfolding step
      by (fastforce simp: refresh_calls_simps)
  next
    case (raises r' rs' e)
    with Cons.prems show ?thesis
      by (simp add: poll_refresh_raises refresh_calls_simps del: poll.simps)
  qed (auto simp: poll_not_pending poll_timed_out refresh_calls_simps simp del: poll.simps)
qed

lemma poll_refresh_spaced:
  "\<forall>r\<in>set rs. 0 \<le> sleep_extra r \<and> 0 \<le> refresh_latency r \<Longrightarrow>
   sorted_wrt (\<lambda>a b. a + 3 \<le> b) (refresh_calls (snd (poll s now t rs)))"
proof (induction rs arbitrary: now t)
  case Nil
  then show ?case by (simp add: refresh_calls_simps)
next
  case (Cons r rs)
  show ?case
  proof (cases rule: poll_cases [where t = t and now = now and s = s and rs = "r # rs"])
    case (again r' rs' t')
    let ?now = "now + 3 + sleep_extra r + refresh_latency r"
    from again have step: "snd (poll s now t (r # rs)) =
        [(now, Time), (now, Sleep 3), (now + 3 + sleep_extra r, Refresh)] @ snd (poll s ?now t' rs)"
      by (simp add: poll_step del: poll.simps)
    from Cons.prems have rs: "\<forall>r\<in>set rs. 0 \<le> sleep_extra r \<and> 0 \<le> refresh_latency r" by simp
    from Cons.IH [OF rs, of ?now t'] poll_refresh_after [OF rs, of s ?now t'] Cons.prems
    show ?thesis unfolding step
      by (fastforce simp: refresh_calls_simps)
  qed (auto simp: poll_not_pending poll_timed_out poll_refresh_raises refresh_calls_simps
            simp del: poll.simps)
qed

lemma poll_iterates_pending:
  "n < length (refresh_calls (snd (poll s now t0 rs))) \<Longrightarrow>
   (case n of 0 \<Rightarrow> t_status t0 = ''pending''
    | Suc m \<Rightarrow> m < length rs \<and> (\<exists>t. refresh_result (rs ! m) = Inr t \<and> t_status t = ''pending''))"
proof (induction rs arbitrary: now t0 n)
  case Nil
  then show ?case by (simp add: refresh_calls_simps split: if_splits)
next
  case (Cons r rs)
  show ?case
  proof (cases rule: poll_cases [where t = t0 and now = now and s = s and rs = "r # rs"])
    case (again r' rs' t')
    let ?now = "now + 3 + sleep_extra r + refresh_latency r"
    from again have step: "snd (poll s now t0 (r # rs)) =
        [(now, Time), (now, Sleep 3), (now + 3 + sleep_extra r, Refresh)] @ snd (poll s ?now t' rs)"
      by (simp add: poll_step del: poll.simps)
    show ?thesis
    proof (cases n)
      case 0
      with again show ?thesis by simp
    next
      case (Suc m)
      with Cons.prems have "m < length (refresh_calls (snd (poll s ?now t' rs)))"
        unfolding step by (simp add: refresh_calls_simps)
      from Cons.IH [OF this] Suc again show ?thesis
        by (auto split: nat.splits)
    qed
  next
    case (raises r' rs' e)
    with Cons.prems show ?thesis
      by (simp add: poll_refresh_raises refresh_calls_simps del: poll.simps)
  next
    case exited
    with Cons.prems show ?thesis
      by (simp add: poll_not_pending refresh_calls_simps del: poll.simps)
  next
    case timeout
    with Cons.prems show ?thesis
      by (simp add: poll_timed_out refresh_calls_simps del: poll.simps)
  qed simp
qed

section \<open>The handler\<close>

lemma run_submitted:
  "agent_run env (prompt request) = Inr t \<Longrightarrow>
   run_codegen_agent env request =
     (map_option respond
        (fst (poll (arrival env + submit_latency env) (arrival env + submit_latency env) t (rounds env))),
      [(arrival env, Submit (prompt request)), (arrival env + submit_latency env, Time)]
        @ snd (poll (arrival env + submit_latency env) (arrival env + submit_latency env) t (rounds env)))"
  by (simp add: run_codegen_agent_def Let_def split: prod.splits del: poll.simps)

lemma run_submit_raises:
  "agent_run env (prompt request) = Inl e \<Longrightarrow>
   run_codegen_agent env request =
     (Some (internal_error e), [(arrival env, Submit (prompt request))])"
  by (simp add: run_codegen_agent_def)

lemma run_immediate:
  assumes "agent_run env (prompt request) = Inr t" and "t_status t \<noteq> ''pending''"
  shows "run_codegen_agent env request =
           (Some (respond (Exited t)),
            [(arrival env, Submit (prompt request)), (arrival env + submit_latency env, Time)])"
  using assms by (simp add: run_submitted poll_not_pending del: poll.simps respond.simps)

lemma run_settles:
  assumes "agent_run env (prompt request) = Inr t0" and "t_status t0 = ''pending''"
    and "rounds env = pre @ r # post" and "\<forall>q\<in>set pre. keeps_pending q"
    and "in_time (rounds env) (length pre)"
    and "refresh_result r = Inr t" and "t_status t \<noteq> ''pending''"
  shows "fst (run_codegen_agent env request) = Some (respond (Exited t)) \<and>
         length (refresh_calls (snd (run_codegen_agent env request))) = Suc (length pre) \<and>
         snd (last (snd (run_codegen_agent env request))) = Refresh"
proof -
  let ?s = "arrival env + submit_latency env"
  from assms(3,5) have "\<forall>j\<le>length pre. ?s - ?s + elapsed pre j \<le> 120"
    using in_time_pre [of pre r post] by simp
  from poll_settles [OF assms(2) assms(4) this assms(6) assms(7), of post]
  show ?thesis using assms(1,3)
    by (auto simp: run_submitted refresh_calls_simps simp del: poll.simps respond.simps)
qed

lemma run_refresh_raises:
  assumes "agent_run env (prompt request) = Inr t0" and "t_status t0 = ''pending''"
    and "rounds env = pre @ r # post" and "\<forall>q\<in>set pre. keeps_pending q"
    and "in_time (rounds env) (length pre)"
    and "refresh_result r = Inl e"
  shows "fst (run_codegen_agent env request) = Some (internal_error e) \<and>
         length (refresh_calls (snd (run_codegen_agent env request))) = Suc (length pre) \<and>
         snd (last (snd (run_codegen_agent env request))) = Refresh"
proof -
  let ?s = "arrival env + submit_latency env"
  from assms(3,5) have "\<forall>j\<le>length pre. ?s - ?s + elapsed pre j \<le> 120"
    using in_time_pre [of pre r post] by simp
  from poll_raises [OF assms(2) assms(4) this assms(6), of post]
  show ?thesis using assms(1,3)
    by (auto simp: run_submitted refresh_calls_simps simp del: poll.simps)
qed

lemma run_last_task:
  assumes "fst (run_codegen_agent env request) = Some (Returned resp)"
  shows "\<exists>ex t. respond ex = Returned resp \<and>
           (ex = TimedOut t \<or> ex = Exited t \<and> t_status t \<noteq> ''pending'') \<and>
           task_after env (prompt request)
             (length (refresh_calls (snd (run_codegen_agent env request)))) = Some (Inr t)"
proof (cases "agent_run env (prompt request)")
  case (Inl e)
  with assms show ?thesis by (simp add: run_submit_raises internal_error_def)
next
  case (Inr t0)
  let ?s = "arrival env + submit_latency env"
  let ?p = "poll ?s ?s t0 (rounds env)"
  from assms Inr obtain ex where ex: "fst ?p = Some ex" "respond ex = Returned resp"
    by (auto simp: run_submitted simp del: poll.simps respond.simps)
  from ex(2) obtain t where t: "ex = TimedOut t \<or> ex = Exited t"
    by (cases ex) (simp_all add: internal_error_def)
  from poll_last_task [OF ex(1) t]
  have "task_after env (prompt request) (length (refresh_calls (snd ?p))) = Some (Inr t)"
    using Inr by (auto simp: task_after_def split: nat.splits)
  moreover have "refresh_calls (snd (run_codegen_agent env request)) = refresh_calls (snd ?p)"
    using Inr by (simp add: run_submitted refresh_calls_simps del: poll.simps)
  moreover from t ex(1) have "ex = TimedOut t \<or> ex = Exited t \<and> t_status t \<noteq> ''pending''"
    using poll_exited_not_pending by blast
  ultimately show ?thesis using ex(2) by auto
qed

section \<open>Terminal states of the task\<close>

text \<open>
  C1. When the task is \<open>completed\<close> as \<open>agent.run\<close> returns it, the handler
  returns, with no call to the remote service after the submission, a response with
  status \<open>completed\<close>, the text of the task's result as \<open>result\<close>, and no
  \<open>error\<close>. When the task is pending at first, stays pending through the refreshes
  of the rounds \<open>pre\<close> with no check at the head of the loop reading more than the
  timeout, and the next refresh finds it \<open>completed\<close>, the handler returns the same
  response for the task as that refresh left it.
\<close>

theorem completed_response:
  "(agent_run env (prompt request) = Inr t \<and> t_status t = ''completed'' \<longrightarrow>
      run_codegen_agent env request =
        (Some (Returned \<lparr>status = ''completed'', result = Some (py_str (t_result t)),
                 error = None, task_id = Some (id_text t)\<rparr>),
         [(arrival env, Submit (prompt request)), (arrival env + submit_latency env, Time)])) \<and>
   (agent_run env (prompt request) = Inr t0 \<and> t_status t0 = ''pending'' \<and>
    rounds env = pre @ r # post \<and> (\<forall>q\<in>set pre. keeps_pending q) \<and>
    in_time (rounds env) (length pre) \<and>
    refresh_result r = Inr t \<and> t_status t = ''completed'' \<longrightarrow>
      fst (run_codegen_agent env request) =
        Some (Returned \<lparr>status = ''completed'', result = Some (py_str (t_result t)),
                error = None, task_id = Some (id_text t)\<rparr>))"
proof (intro conjI impI; elim conjE)
  assume "agent_run env (prompt request) = Inr t" "t_status t = ''completed''"
  then show "run_codegen_agent env request =
        (Some (Returned \<lparr>status = ''completed'', result = Some (py_str (t_result t)),
                 error = None, task_id = Some (id_text t)\<rparr>),
         [(arrival env, Submit (prompt request)), (arrival env + submit_latency env, Time)])"
    by (simp add: run_immediate)
next
  assume "agent_run env (prompt request) = Inr t0" "t_status t0 = ''pending''"
    "rounds env = pre @ r # post" "\<forall>q\<in>set pre. keeps_pending q"
    "in_time (rounds env) (length pre)" "refresh_result r = Inr t" "t_status t = ''completed''"
  then show "fst (run_codegen_agent env request) =
        Some (Returned \<lparr>status = ''completed'', result = Some (py_str (t_result t)),
                error = None, task_id = Some (id_text t)\<rparr>)"
    using run_settles [of env request t0 pre r post t] by simp
qed

theorem completed_response_witness:
  "run_codegen_agent
     (script (Inr ((task_in ''completed'')\<lparr>t_result := PyStr ''patched''\<rparr>)) []) fix_bug =
     (Some (Returned \<lparr>status = ''completed'', result = Some ''patched'', error = None,
              task_id = Some ''42''\<rparr>),
      [(1000, Submit ''fix the bug''), (1002, Time)]) \<and>
   fst (run_codegen_agent
     (script (Inr (task_in ''pending''))
        [on_time (Inr (task_in ''pending'')),
         on_time (Inr ((task_in ''completed'')\<lparr>t_result := PyInt 7\<rparr>)),
         on_time (Inl ''unused'')]) fix_bug) =
     Some (Returned \<lparr>status = ''completed'', result = Some ''7'', error = None,
             task_id = Some ''42''\<rparr>)"
proof -
  let ?done = "(task_in ''completed'')\<lparr>t_result := PyStr ''patched''\<rparr>"
  let ?seven = "(task_in ''completed'')\<lparr>t_result := PyInt 7\<rparr>"
  let ?pre = "[on_time (Inr (task_in ''pending''))]"
  let ?post = "[on_time (Inl ''unused'')]"
  let ?env = "script (Inr (task_in ''pending'')) (?pre @ on_time (Inr ?seven) # ?post)"
  have 1: "agent_run (script (Inr ?done) []) (prompt fix_bug) = Inr ?done \<and>
      t_status ?done = ''completed''"
    by (simp add: example_defs)
  have 2: "agent_run ?env (prompt fix_bug) = Inr (task_in ''pending'') \<and>
      t_status (task_in ''pending'') = ''pending'' \<and>
      rounds ?env = ?pre @ on_time (Inr ?seven) # ?post \<and>
      (\<forall>q\<in>set ?pre. keeps_pending q) \<and> in_time (rounds ?env) (length ?pre) \<and>
      refresh_result (on_time (Inr ?seven)) = Inr ?seven \<and> t_status ?seven = ''completed''"
    by (simp add: example_defs keeps_pending_def in_time_0 in_time_Suc elapsed_def round_time_def)
  from completed_response [where env = "script (Inr ?done) []" and request = fix_bug
      and t = ?done, THEN conjunct1, THEN mp, OF 1]
    completed_response [where env = ?env and request = fix_bug and t = ?seven
      and ?t0.0 = "task_in ''pending''" and pre = ?pre and r = "on_time (Inr ?seven)"
      and post = ?post, THEN conjunct2, THEN mp, OF 2]
  show ?thesis
    by (simp add: example_defs id_text_def)
qed

text \<open>
  C2. The same for a task that is \<open>failed\<close>, at once or after a refresh: the
  response has status \<open>failed\<close>, no \<open>result\<close>, and as \<open>error\<close> the task's
  error message, or the text \<open>Codegen task failed.\<close> when the task has no such
  attribute.
\<close>

theorem failed_response:
  "(agent_run env (prompt request) = Inr t \<and> t_status t = ''failed'' \<longrightarrow>
      run_codegen_agent env request =
        (Some (Returned \<lparr>status = ''failed'', result = None,
                 error = Some (case t_error_message t of
                                 None \<Rightarrow> ''Codegen task failed.'' | Some m \<Rightarrow> m),
                 task_id = Some (id_text t)\<rparr>),
         [(arrival env, Submit (prompt request)), (arrival env + submit_latency env, Time)])) \<and>
   (agent_run env (prompt request) = Inr t0 \<and> t_status t0 = ''pending'' \<and>
    rounds env = pre @ r # post \<and> (\<forall>q\<in>set pre. keeps_pending q) \<and>
    in_time (rounds env) (length pre) \<and>
    refresh_result r = Inr t \<and> t_status t = ''failed'' \<longrightarrow>
      fst (run_codegen_agent env request) =
        Some (Returned \<lparr>status = ''failed'', result = None,
                error = Some (case t_error_message t of
                                None \<Rightarrow> ''Codegen task failed.'' | Some m \<Rightarrow> m),
                task_id = Some (id_text t)\<rparr>))"
proof (intro conjI impI; elim conjE)
  assume "agent_run env (prompt request) = Inr t" "t_status t = ''failed''"
  then show "run_codegen_agent env request =
        (Some (Returned \<lparr>status = ''failed'', result = None,
                 error = Some (case t_error_message t of
                                 None \<Rightarrow> ''Codegen task failed.'' | Some m \<Rightarrow> m),
                 task_id = Some (id_text t)\<rparr>),
         [(arrival env, Submit (prompt request)), (arrival env + submit_latency env, Time)])"
    by (simp add: run_immediate)
next
  assume "agent_run env (prompt request) = Inr t0" "t_status t0 = ''pending''"
    "rounds env = pre @ r # post" "\<forall>q\<in>set pre. keeps_pending q"
    "in_time (rounds env) (length pre)" "refresh_result r = Inr t" "t_status t = ''failed''"
  then show "fst (run_codegen_agent env request) =
        Some (Returned \<lparr>status = ''failed'', result = None,
                error = Some (case t_error_message t of
                                None \<Rightarrow> ''Codegen task failed.'' | Some m \<Rightarrow> m),
                task_id = Some (id_text t)\<rparr>)"
    using run_settles [of env request t0 pre r post t] by simp
qed

theorem failed_response_witness:
  "run_codegen_agent
     (script (Inr ((task_in ''failed'')\<lparr>t_error_message := Some ''no such repository''\<rparr>)) [])
     fix_bug =
     (Some (Returned \<lparr>status = ''failed'', result = None, error = Some ''no such repository'',
              task_id = Some ''42''\<rparr>),
      [(1000, Submit ''fix the bug''), (1002, Time)]) \<and>
   fst (run_codegen_agent
     (script (Inr (task_in ''pending''))
        [on_time (Inr (task_in ''pending'')), on_time (Inr (task_in ''failed''))]) fix_bug) =
     Some (Returned \<lparr>status = ''failed'', result = None, error = Some ''Codegen task failed.'',
             task_id = Some ''42''\<rparr>)"
proof -
  let ?bad = "(task_in ''failed'')\<lparr>t_error_message := Some ''no such repository''\<rparr>"
  let ?pre = "[on_time (Inr (task_in ''pending''))]"
  let ?env = "script (Inr (task_in ''pending'')) (?pre @ on_time (Inr (task_in ''failed'')) # [])"
  have 1: "agent_run (script (Inr ?bad) []) (prompt fix_bug) = Inr ?bad \<and>
      t_status ?bad = ''failed''"
    by (simp add: example_defs)
  have 2: "agent_run ?env (prompt fix_bug) = Inr (task_in ''pending'') \<and>
      t_status (task_in ''pending'') = ''pending'' \<and>
      rounds ?env = ?pre @ on_time (Inr (task_in ''failed'')) # [] \<and>
      (\<forall>q\<in>set ?pre. keeps_pending q) \<and> in_time (rounds ?env) (length ?pre) \<and>
      refresh_result (on_time (Inr (task_in ''failed''))) = Inr (task_in ''failed'') \<and>
      t_status (task_in ''failed'') = ''failed''"
    by (simp add: example_defs keeps_pending_def in_time_0 in_time_Suc elapsed_def round_time_def)
  from failed_response [where env = "script (Inr ?bad) []" and request = fix_bug
      and t = ?bad, THEN conjunct1, THEN mp, OF 1]
    failed_response [where env = ?env and request = fix_bug and t = "task_in ''failed''"
      and ?t0.0 = "task_in ''pending''" and pre = ?pre
      and r = "on_time (Inr (task_in ''failed''))" and post = "[]",
      THEN conjunct2, THEN mp, OF 2]
  show ?thesis
    by (simp add: example_defs id_text_def)
qed

section \<open>Timeout\<close>

text \<open>
  C3, as it is stated, fails on \<open>late_completion\<close>. Every sleep lasts three
  seconds and every refresh half a second. The check at the head of the loop after the
  34th refresh reads 119 seconds, which is not more than the timeout, so the loop
  sleeps once more; the 35th refresh is called 122 seconds after the start and returns
  half a second later with the task completed. The task has been pending for 122.5
  seconds, more than 120, and the response is \<open>completed\<close>, not
  \<open>timeout\<close>.
\<close>

theorem timeout_after_120_counterexample:
  "agent_run late_completion (prompt fix_bug) = Inr (task_in ''pending'') \<and>
   pending_span (rounds late_completion) = Some (245 / 2) \<and>
   (120 :: real) < 245 / 2 \<and>
   fst (run_codegen_agent late_completion fix_bug) =
     Some (Returned \<lparr>status = ''completed'', result = Some ''patched'', error = None,
             task_id = Some ''42''\<rparr>)"
proof -
  let ?p = "on_time (Inr (task_in ''pending''))"
  let ?t = "(task_in ''completed'')\<lparr>t_result := PyStr ''patched''\<rparr>"
  have kp: "keeps_pending ?p"
    by (simp add: example_defs keeps_pending_def)
  have rt: "round_time ?p = 7 / 2"
    by (simp add: example_defs round_time_def)
  have last: "pending_span [on_time (Inr ?t)] = Some (7 / 2)"
    by (simp add: example_defs keeps_pending_def round_time_def)
  have span: "pending_span (replicate n ?p @ [on_time (Inr ?t)]) = Some (7 / 2 * real n + 7 / 2)"
    for n
  proof (induction n)
    case 0
    show ?case using last by simp
  next
    case (Suc n)
    have "pending_span (replicate (Suc n) ?p @ [on_time (Inr ?t)]) =
        map_option (\<lambda>d. round_time ?p + d) (pending_span (replicate n ?p @ [on_time (Inr ?t)]))"
      using kp by simp
    also have "\<dots> = Some (7 / 2 + (7 / 2 * real n + 7 / 2))"
      unfolding Suc rt by simp
    finally show ?case by (simp add: field_simps)
  qed
  have el: "elapsed (replicate n ?p @ rs) j = 7 / 2 * real j" if "j \<le> n" for n j rs
    using that
  proof (induction n arbitrary: j)
    case 0
    then show ?case by (simp add: elapsed_0)
  next
    case (Suc n)
    then show ?case
      by (cases j) (simp_all add: elapsed_0 elapsed_Suc rt algebra_simps)
  qed
  have "in_time (rounds late_completion) (length (replicate 34 ?p))"
    by (auto simp: in_time_def late_completion_def script_def el)
  then have "fst (run_codegen_agent late_completion fix_bug) = Some (respond (Exited ?t))"
    using run_settles [of late_completion fix_bug "task_in ''pending''" "replicate 34 ?p"
        "on_time (Inr ?t)" "[]" ?t] kp
    by (simp add: late_completion_def example_defs)
  moreover have "pending_span (rounds late_completion) = Some (245 / 2)"
    using span [of 34] by (simp add: late_completion_def script_def)
  ultimately show ?thesis
    by (simp add: late_completion_def example_defs id_text_def)
qed

text \<open>
  C3, amended. The timeout is only looked at in the check at the head of the loop,
  before each sleep. When the task is still pending at such a check and the check reads
  more than 120 seconds since the start time, the handler returns a response with
  status \<open>timeout\<close>, no \<open>result\<close>, and the error
  \<open>Task timed out after 120 seconds.\<close> Here the check is the one after \<open>k\<close>
  refreshes, each of which left the task pending.
\<close>

theorem timeout_response:
  assumes "agent_run env (prompt request) = Inr t0" and "t_status t0 = ''pending''"
    and "k \<le> length (rounds env)" and "\<forall>q\<in>set (take k (rounds env)). keeps_pending q"
    and "elapsed (rounds env) k > real_of_int timeout_seconds"
  shows "\<exists>t. fst (run_codegen_agent env request) =
           Some (Returned \<lparr>status = ''timeout'', result = None,
                   error = Some ''Task timed out after 120 seconds.'',
                   task_id = Some (id_text t)\<rparr>)"
proof -
  let ?s = "arrival env + submit_latency env"
  from assms(5) have "?s - ?s + elapsed (rounds env) k > 120" by simp
  from poll_times_out [OF assms(2) assms(3) assms(4) this]
  obtain t where "fst (poll ?s ?s t0 (rounds env)) = Some (TimedOut t)" ..
  with assms(1) show ?thesis
    by (auto simp: run_submitted simp del: poll.simps)
qed

theorem timeout_response_witness:
  "fst (run_codegen_agent
     (script (Inr (task_in ''pending''))
        [\<lparr>sleep_extra = 60, refresh_latency = 58, refresh_result = Inr (task_in ''pending'')\<rparr>,
         on_time (Inr (task_in ''completed''))]) fix_bug) =
     Some (Returned \<lparr>status = ''timeout'', result = None,
             error = Some ''Task timed out after 120 seconds.'', task_id = Some ''42''\<rparr>)"
proof -
  let ?slow = "\<lparr>sleep_extra = 60, refresh_latency = 58, refresh_result = Inr (task_in ''pending'')\<rparr>"
  let ?env = "script (Inr (task_in ''pending'')) [?slow, on_time (Inr (task_in ''completed''))]"
  have "agent_run ?env (prompt fix_bug) = Inr (task_in ''pending'')"
    and "t_status (task_in ''pending'') = ''pending''"
    and "1 \<le> length (rounds ?env)"
    and "\<forall>q\<in>set (take 1 (rounds ?env)). keeps_pending q"
    and "elapsed (rounds ?env) 1 > real_of_int timeout_seconds"
    by (simp_all add: example_defs keeps_pending_def elapsed_def round_time_def)
  from timeout_response [OF this] show ?thesis
    by (simp add: example_defs id_text_def run_codegen_agent_def Let_def)
qed

section \<open>A task that has become active\<close>



section \<open>The pace of the loop\<close>

text \<open>
  C5. In the calls of any request, in the order in which they are made:
  a refresh comes right after a sleep of the polling interval of 3 seconds; where
  no sleep ends early and no refresh takes negative time, any two refreshes are
  called at least 3 seconds apart; a sleep comes right after a clock reading that
  is at most 120 seconds later than the start time; and before each refresh the
  task, as \<open>agent.run\<close> or the refresh before left it, is pending.
\<close>

theorem polling_pace:
  "successively (\<lambda>a b. snd b = Refresh \<longrightarrow> snd a = Sleep polling_interval_seconds)
     (snd (run_codegen_agent env request)) \<and>
   ((\<forall>r\<in>set (rounds env). 0 \<le> sleep_extra r \<and> 0 \<le> refresh_latency r) \<longrightarrow>
      sorted_wrt (\<lambda>a b. a + real_of_int polling_interval_seconds \<le> b)
        (refresh_calls (snd (run_codegen_agent env request)))) \<and>
   successively (\<lambda>a b. (\<exists>d. snd b = Sleep d) \<longrightarrow>
       snd a = Time \<and>
       fst a - (arrival env + submit_latency env) \<le> real_of_int timeout_seconds)
     (snd (run_codegen_agent env request)) \<and>
   (\<forall>n<length (refresh_calls (snd (run_codegen_agent env request))).
      \<exists>t. task_after env (prompt request) n = Some (Inr t) \<and> t_status t = ''pending'')"
proof (cases "agent_run env (prompt request)")
  case (Inl e)
  then show ?thesis
    by (simp add: run_submit_raises refresh_calls_simps)
next
  case (Inr t0)
  let ?s = "arrival env + submit_latency env"
  let ?p = "snd (poll ?s ?s t0 (rounds env))"
  let ?tr = "snd (run_codegen_agent env request)"
  have tr: "?tr = (arrival env, Submit (prompt request)) # (?s, Time) # ?p"
    using Inr by (simp add: run_submitted del: poll.simps)
  have calls: "refresh_calls ?tr = refresh_calls ?p"
    unfolding tr by (simp add: refresh_calls_simps)
  have "successively (guarded ?s) ?tr"
    unfolding tr using poll_trace_guarded [of ?s ?s t0 "rounds env"]
      poll_trace_head [of ?s ?s t0 "rounds env"]
    by (auto simp: successively_Cons guarded_def)
  then have 1: "successively (\<lambda>a b. snd b = Refresh \<longrightarrow> snd a = Sleep 3) ?tr"
    and 3: "successively (\<lambda>a b. (\<exists>d. snd b = Sleep d) \<longrightarrow> snd a = Time \<and> fst a - ?s \<le> 120) ?tr"
    by (auto elim!: successively_mono simp: guarded_def)
  have 2: "(\<forall>r\<in>set (rounds env). 0 \<le> sleep_extra r \<and> 0 \<le> refresh_latency r) \<longrightarrow>
      sorted_wrt (\<lambda>a b. a + 3 \<le> b) (refresh_calls ?tr)"
    unfolding calls using poll_refresh_spaced [of "rounds env" ?s ?s t0] by blast
  have 4: "\<exists>t. task_after env (prompt request) n = Some (Inr t) \<and> t_status t = ''pending''"
    if "n < length (refresh_calls ?tr)" for n
    using poll_iterates_pending [of n ?s ?s t0 "rounds env"] that Inr
    unfolding calls by (auto simp: task_after_def split: nat.splits)
  from 1 2 3 4 show ?thesis by simp
qed

theorem polling_pace_witness:
  "snd (run_codegen_agent
     (script (Inr (task_in ''pending''))
        [on_time (Inr (task_in ''pending'')), on_time (Inr (task_in ''running''))]) fix_bug) =
     [(1000, Submit ''fix the bug''), (1002, Time),
      (1002, Time), (1002, Sleep 3), (1005, Refresh),
      (2011 / 2, Time), (2011 / 2, Sleep 3), (2017 / 2, Refresh)] \<and>
   sorted_wrt (\<lambda>a b. a + 3 \<le> b) [1005, 2017 / (2::real)] \<and>
   t_status (task_in ''pending'') = ''pending'' \<and>
   task_after (script (Inr (task_in ''pending''))
       [on_time (Inr (task_in ''pending'')), on_time (Inr (task_in ''running''))])
     ''fix the bug'' 1 = Some (Inr (task_in ''pending''))"
proof -
  let ?rs = "[on_time (Inr (task_in ''pending'')), on_time (Inr (task_in ''running''))]"
  let ?env = "script (Inr (task_in ''pending'')) ?rs"
  have good: "\<forall>r\<in>set (rounds ?env). 0 \<le> sleep_extra r \<and> 0 \<le> refresh_latency r"
    by (simp add: example_defs)
  have tr: "snd (run_codegen_agent ?env fix_bug) =
     [(1000, Submit ''fix the bug''), (1002, Time),
      (1002, Time), (1002, Sleep 3), (1005, Refresh),
      (2011 / 2, Time), (2011 / 2, Sleep 3), (2017 / 2, Refresh)]"
    by (simp add: example_defs run_codegen_agent_def Let_def)
  note pace = polling_pace [of ?env fix_bug]
  from pace [THEN conjunct2, THEN conjunct1, THEN mp, OF good]
  have spaced: "sorted_wrt (\<lambda>a b. a + 3 \<le> b) [1005, 2017 / (2::real)]"
    unfolding tr by (simp add: refresh_calls_def)
  from pace [THEN conjunct2, THEN conjunct2, THEN conjunct2, THEN spec, of 1]
  have "\<exists>t. task_after ?env (prompt fix_bug) 1 = Some (Inr t) \<and> t_status t = ''pending''"
    unfolding tr by (simp add: refresh_calls_def)
  then have "t_status (task_in ''pending'') = ''pending'' \<and>
      task_after ?env ''fix the bug'' 1 = Some (Inr (task_in ''pending''))"
    by (simp add: example_defs task_after_def)
  with spaced tr show ?thesis by simp
qed

section \<open>The credential gate\<close>

text \<open>
  C6. \<open>verify_api_key\<close> succeeds exactly when the scheme is \<open>Bearer\<close>,
  compared as a string and so case-sensitive, and the credential is the configured
  secret. Credentials with another scheme are refused with 403 and credentials with
  the right scheme and a wrong credential with 401; a request that brings such
  credentials to \<open>verify_api_key\<close> ends with that exception and makes no call at
  all to the remote service. In general a request makes a call to the remote service
  only when \<open>HTTPBearer()\<close> returned credentials and they have the scheme
  \<open>Bearer\<close> and the secret.
\<close>

theorem credential_gate:
  "((\<exists>k. verify_api_key key creds = Inr k) \<longleftrightarrow>
       scheme creds = ''Bearer'' \<and> credentials creds = key) \<and>
   (scheme creds \<noteq> ''Bearer'' \<longrightarrow>
       verify_api_key key creds = Inl (HTTPException 403 ''Invalid authentication scheme'') \<and>
       run_agent_route key (Inr creds) env request =
         (Some (Raises (HTTPException 403 ''Invalid authentication scheme'')), [])) \<and>
   (scheme creds = ''Bearer'' \<and> credentials creds \<noteq> key \<longrightarrow>
       verify_api_key key creds = Inl (HTTPException 401 ''Invalid API Key'') \<and>
       run_agent_route key (Inr creds) env request =
         (Some (Raises (HTTPException 401 ''Invalid API Key'')), [])) \<and>
   (snd (run_agent_route key security env request) \<noteq> [] \<longrightarrow>
       (\<exists>c. security = Inr c \<and> scheme c = ''Bearer'' \<and> credentials c = key))"
proof (intro conjI impI)
  show "(\<exists>k. verify_api_key key creds = Inr k) \<longleftrightarrow>
      scheme creds = ''Bearer'' \<and> credentials creds = key"
    by (simp add: verify_api_key_def)
next
  assume "scheme creds \<noteq> ''Bearer''"
  then show "verify_api_key key creds = Inl (HTTPException 403 ''Invalid authentication scheme'')"
    and "run_agent_route key (Inr creds) env request =
      (Some (Raises (HTTPException 403 ''Invalid authentication scheme'')), [])"
    by (simp_all add: verify_api_key_def run_agent_route_def)
next
  assume "scheme creds = ''Bearer'' \<and> credentials creds \<noteq> key"
  then show "verify_api_key key creds = Inl (HTTPException 401 ''Invalid API Key'')"
    and "run_agent_route key (Inr creds) env request =
      (Some (Raises (HTTPException 401 ''Invalid API Key'')), [])"
    by (simp_all add: verify_api_key_def run_agent_route_def)
next
  assume calls: "snd (run_agent_route key security env request) \<noteq> []"
  show "\<exists>c. security = Inr c \<and> scheme c = ''Bearer'' \<and> credentials c = key"
  proof (cases security)
    case (Inl e)
    with calls show ?thesis by (simp add: run_agent_route_def)
  next
    case (Inr c)
    with calls show ?thesis
      by (auto simp: run_agent_route_def verify_api_key_def split: if_splits)
  qed
qed

theorem credential_gate_witness:
  "verify_api_key ''s3cret'' \<lparr>scheme = ''bearer'', credentials = ''s3cret''\<rparr> =
     Inl (HTTPException 403 ''Invalid authentication scheme'') \<and>
   run_agent_route ''s3cret'' (Inr \<lparr>scheme = ''bearer'', credentials = ''s3cret''\<rparr>)
     (script (Inr (task_in ''completed'')) []) fix_bug =
     (Some (Raises (HTTPException 403 ''Invalid authentication scheme'')), []) \<and>
   verify_api_key ''s3cret'' \<lparr>scheme = ''Bearer'', credentials = ''wrong-token''\<rparr> =
     Inl (HTTPException 401 ''Invalid API Key'') \<and>
   run_agent_route ''s3cret'' (Inr \<lparr>scheme = ''Bearer'', credentials = ''wrong-token''\<rparr>)
     (script (Inr (task_in ''completed'')) []) fix_bug =
     (Some (Raises (HTTPException 401 ''Invalid API Key'')), []) \<and>
   verify_api_key ''s3cret'' \<lparr>scheme = ''Bearer'', credentials = ''s3cret''\<rparr> = Inr ''s3cret'' \<and>
   snd (run_agent_route ''s3cret'' (Inr \<lparr>scheme = ''Bearer'', credentials = ''s3cret''\<rparr>)
     (script (Inr (task_in ''completed'')) []) fix_bug) =
     [(1000, Submit ''fix the bug''), (1002, Time)]"
proof -
  let ?env = "script (Inr (task_in ''completed'')) []"
  let ?lower = "\<lparr>scheme = ''bearer'', credentials = ''s3cret''\<rparr>"
  let ?wrong = "\<lparr>scheme = ''Bearer'', credentials = ''wrong-token''\<rparr>"
  let ?right = "\<lparr>scheme = ''Bearer'', credentials = ''s3cret''\<rparr>"
  have 1: "scheme ?lower \<noteq> ''Bearer''" by simp
  have 2: "scheme ?wrong = ''Bearer'' \<and> credentials ?wrong \<noteq> ''s3cret''" by simp
  have 3: "scheme ?right = ''Bearer'' \<and> credentials ?right = ''s3cret''" by simp
  have 4: "snd (run_agent_route ''s3cret'' (Inr ?right) ?env fix_bug) =
      [(1000, Submit ''fix the bug''), (1002, Time)]"
    by (simp add: run_agent_route_def verify_api_key_def run_codegen_agent_def example_defs)
  then have 5: "snd (run_agent_route ''s3cret'' (Inr ?right) ?env fix_bug) \<noteq> []" by simp
  note gate = credential_gate [where key = "''s3cret''" and env = ?env and request = fix_bug]
  from gate [where creds = ?lower, THEN conjunct2, THEN conjunct1, THEN mp, OF 1]
    gate [where creds = ?wrong, THEN conjunct2, THEN conjunct2, THEN conjunct1, THEN mp, OF 2]
    gate [where creds = ?right, THEN conjunct1, THEN iffD2, OF 3]
    gate [where security = "Inr ?right", THEN conjunct2, THEN conjunct2, THEN conjunct2,
      THEN mp, OF 5] 4
  show ?thesis
    by (simp add: verify_api_key_def)
qed

text \<open>
  C10. The scheme is checked first: credentials with a scheme other than
  \<open>Bearer\<close> and a credential other than the secret are refused by
  \<open>verify_api_key\<close> with 403, not with 401.
\<close>

theorem scheme_checked_first:
  assumes "scheme creds \<noteq> ''Bearer''" and "credentials creds \<noteq> key"
  shows "verify_api_key key creds = Inl (HTTPException 403 ''Invalid authentication scheme'') \<and>
         verify_api_key key creds \<noteq> Inl (HTTPException 401 ''Invalid API Key'')"
  using assms by (simp add: verify_api_key_def)

theorem scheme_checked_first_witness:
  "verify_api_key ''s3cret'' \<lparr>scheme = ''bearer'', credentials = ''guess''\<rparr> =
     Inl (HTTPException 403 ''Invalid authentication scheme'')"
proof -
  have "scheme \<lparr>scheme = ''bearer'', credentials = ''guess''\<rparr> \<noteq> ''Bearer''"
    and "credentials \<lparr>scheme = ''bearer'', credentials = ''guess''\<rparr> \<noteq> ''s3cret''"
    by simp_all
  from scheme_checked_first [OF this] show ?thesis by simp
qed

section \<open>Failures of the remote service\<close>

text \<open>
  C7. When \<open>agent.run\<close> raises, the request ends with a 500 whose detail ends
  with the text of the exception, and the submission is the only call made: the loop
  does not run and nothing is tried again. When a refresh raises while the task is
  pending, the request ends with the same 500 for that exception, and the failed
  refresh is the last call made.
\<close>

theorem remote_failure:
  "(agent_run env (prompt request) = Inl e \<longrightarrow>
      run_codegen_agent env request =
        (Some (Raises (HTTPException 500 (''An internal error occurred: '' @ e))),
         [(arrival env, Submit (prompt request))])) \<and>
   (agent_run env (prompt request) = Inr t0 \<and> t_status t0 = ''pending'' \<and>
    rounds env = pre @ r # post \<and> (\<forall>q\<in>set pre. keeps_pending q) \<and>
    in_time (rounds env) (length pre) \<and> refresh_result r = Inl e \<longrightarrow>
      fst (run_codegen_agent env request) =
        Some (Raises (HTTPException 500 (''An internal error occurred: '' @ e))) \<and>
      length (refresh_calls (snd (run_codegen_agent env request))) = Suc (length pre) \<and>
      snd (last (snd (run_codegen_agent env request))) = Refresh)"
proof (intro conjI impI; (elim conjE)?)
  assume "agent_run env (prompt request) = Inl e"
  then show "run_codegen_agent env request =
        (Some (Raises (HTTPException 500 (''An internal error occurred: '' @ e))),
         [(arrival env, Submit (prompt request))])"
    by (simp add: run_submit_raises internal_error_def)
next
  assume a: "agent_run env (prompt request) = Inr t0" "t_status t0 = ''pending''"
    "rounds env = pre @ r # post" "\<forall>q\<in>set pre. keeps_pending q"
    "in_time (rounds env) (length pre)" "refresh_result r = Inl e"
  from run_refresh_raises [OF a]
  show "fst (run_codegen_agent env request) =
        Some (Raises (HTTPException 500 (''An internal error occurred: '' @ e)))"
    and "length (refresh_calls (snd (run_codegen_agent env request))) = Suc (length pre)"
    and "snd (last (snd (run_codegen_agent env request))) = Refresh"
    by (simp_all add: internal_error_def)
qed

theorem remote_failure_witness:
  "run_codegen_agent (script (Inl ''connection refused'') [on_time (Inr (task_in ''completed''))])
     fix_bug =
     (Some (Raises (HTTPException 500 ''An internal error occurred: connection refused'')),
      [(1000, Submit ''fix the bug'')]) \<and>
   fst (run_codegen_agent
     (script (Inr (task_in ''pending''))
        [on_time (Inr (task_in ''pending'')), on_time (Inl ''502 Bad Gateway''),
         on_time (Inr (task_in ''completed''))]) fix_bug) =
     Some (Raises (HTTPException 500 ''An internal error occurred: 502 Bad Gateway'')) \<and>
   length (refresh_calls (snd (run_codegen_agent
     (script (Inr (task_in ''pending''))
        [on_time (Inr (task_in ''pending'')), on_time (Inl ''502 Bad Gateway''),
         on_time (Inr (task_in ''completed''))]) fix_bug))) = 2"
proof -
  let ?down = "script (Inl ''connection refused'') [on_time (Inr (task_in ''completed''))]"
  let ?pre = "[on_time (Inr (task_in ''pending''))]"
  let ?r = "on_time (Inl ''502 Bad Gateway'')"
  let ?post = "[on_time (Inr (task_in ''completed''))]"
  let ?env = "script (Inr (task_in ''pending'')) (?pre @ ?r # ?post)"
  have 1: "agent_run ?down (prompt fix_bug) = Inl ''connection refused''"
    by (simp add: example_defs)
  have 2: "agent_run ?env (prompt fix_bug) = Inr (task_in ''pending'') \<and>
      t_status (task_in ''pending'') = ''pending'' \<and>
      rounds ?env = ?pre @ ?r # ?post \<and> (\<forall>q\<in>set ?pre. keeps_pending q) \<and>
      in_time (rounds ?env) (length ?pre) \<and> refresh_result ?r = Inl ''502 Bad Gateway''"
    by (simp add: example_defs keeps_pending_def in_time_0 in_time_Suc elapsed_def round_time_def)
  from remote_failure [where env = ?down and request = fix_bug and e = "''connection refused''",
      THEN conjunct1, THEN mp, OF 1]
    remote_failure [where env = ?env and request = fix_bug and e = "''502 Bad Gateway''"
      and ?t0.0 = "task_in ''pending''" and pre = ?pre and r = ?r and post = ?post,
      THEN conjunct2, THEN mp, OF 2]
  show ?thesis
    by (simp add: example_defs)
qed

section \<open>The fields of a response\<close>

text \<open>
  C8. In every response the handler returns, \<open>status\<close> is set: it is
  \<open>timeout\<close> or the status of the task as the last call left it. At most one of
  \<open>result\<close> and \<open>error\<close> is set.
\<close>

theorem response_fields:
  assumes "fst (run_codegen_agent env request) = Some (Returned resp)"
  shows "(status resp = ''timeout'' \<or>
          (\<exists>t. task_after env (prompt request)
                  (length (refresh_calls (snd (run_codegen_agent env request)))) = Some (Inr t) \<and>
                status resp = t_status t)) \<and>
         \<not> (result resp \<noteq> None \<and> error resp \<noteq> None)"
proof -
  from run_last_task [OF assms] obtain ex t where
    ex: "respond ex = Returned resp" "ex = TimedOut t \<or> ex = Exited t \<and> t_status t \<noteq> ''pending''"
    and t: "task_after env (prompt request)
      (length (refresh_calls (snd (run_codegen_agent env request)))) = Some (Inr t)"
    by blast
  from ex have "(status resp = ''timeout'' \<or> status resp = t_status t) \<and>
      \<not> (result resp \<noteq> None \<and> error resp \<noteq> None)"
    by (auto split: if_splits)
  with t show ?thesis by auto
qed

theorem response_fields_witness:
  "fst (run_codegen_agent
     (script (Inr (task_in ''pending'')) [on_time (Inr (task_in ''running''))]) fix_bug) =
     Some (Returned \<lparr>status = ''running'', result = Some ''Task ID: 42 is now active.'',
             error = None, task_id = Some ''42''\<rparr>) \<and>
   task_after (script (Inr (task_in ''pending'')) [on_time (Inr (task_in ''running''))])
     ''fix the bug'' 1 = Some (Inr (task_in ''running'')) \<and>
   \<not> (result \<lparr>status = ''running'', result = Some ''Task ID: 42 is now active.'',
                error = None, task_id = Some ''42''\<rparr> \<noteq> None \<and>
      error \<lparr>status = ''running'', result = Some ''Task ID: 42 is now active.'',
               error = None, task_id = Some ''42''\<rparr> \<noteq> None)"
proof -
  let ?env = "script (Inr (task_in ''pending'')) [on_time (Inr (task_in ''running''))]"
  have run: "fst (run_codegen_agent ?env fix_bug) =
      Some (Returned \<lparr>status = ''running'', result = Some ''Task ID: 42 is now active.'',
              error = None, task_id = Some ''42''\<rparr>)"
    by (simp add: example_defs id_text_def run_codegen_agent_def Let_def)
  from response_fields [OF run] run show ?thesis
    by (simp add: example_defs task_after_def)
qed

text \<open>
  C9. In every response the handler returns, \<open>task_id\<close> is the text of the id
  of the task as the last call left it, and \<open>N/A\<close> when the task has no attribute
  \<open>id\<close>.
\<close>

theorem response_task_id:
  assumes "fst (run_codegen_agent env request) = Some (Returned resp)"
  shows "\<exists>t. task_after env (prompt request)
                (length (refresh_calls (snd (run_codegen_agent env request)))) = Some (Inr t) \<and>
              task_id resp = Some (case t_id t of None \<Rightarrow> ''N/A'' | Some v \<Rightarrow> py_str v)"
proof -
  from run_last_task [OF assms] obtain ex t where
    ex: "respond ex = Returned resp" "ex = TimedOut t \<or> ex = Exited t \<and> t_status t \<noteq> ''pending''"
    and t: "task_after env (prompt request)
      (length (refresh_calls (snd (run_codegen_agent env request)))) = Some (Inr t)"
    by blast
  from ex have "task_id resp = Some (id_text t)"
    by (auto split: if_splits)
  then have "task_id resp = Some (case t_id t of None \<Rightarrow> ''N/A'' | Some v \<Rightarrow> py_str v)"
    by (simp add: id_text_def split: option.splits)
  with t show ?thesis by blast
qed

theorem response_task_id_witness:
  "fst (run_codegen_agent
     (script (Inr (task_in ''pending''))
        [on_time (Inr ((task_in ''completed'')\<lparr>t_id := None\<rparr>))]) fix_bug) =
     Some (Returned \<lparr>status = ''completed'', result = Some ''None'', error = None,
             task_id = Some ''N/A''\<rparr>) \<and>
   task_after (script (Inr (task_in ''pending''))
       [on_time (Inr ((task_in ''completed'')\<lparr>t_id := None\<rparr>))]) ''fix the bug'' 1 =
     Some (Inr ((task_in ''completed'')\<lparr>t_id := None\<rparr>))"
proof -
  let ?env = "script (Inr (task_in ''pending''))
      [on_time (Inr ((task_in ''completed'')\<lparr>t_id := None\<rparr>))]"
  have run: "fst (run_codegen_agent ?env fix_bug) =
      Some (Returned \<lparr>status = ''completed'', result = Some ''None'', error = None,
              task_id = Some ''N/A''\<rparr>)"
    by (simp add: example_defs id_text_def run_codegen_agent_def Let_def)
  from response_task_id [OF run] run show ?thesis
    by (simp add: example_defs task_after_def)
qed


end
